theory Spec2Isabelle
  imports Complex_Main "HOL-Library.Multiset"
begin

section \<open>Data model\<close>

text \<open>
  One row of the data frame that \<open>load_dataframe\<close> builds. The name columns are strings
  (the response model \<open>PersonRecord\<close> declares them \<open>str\<close>); every other column may be
  missing (pandas NaN / NaT / None), which is \<open>None\<close> here. Numeric columns hold finite
  values, read as reals. The birth date is kept as (year, month, day).
\<close>

record row =
  first_name :: string
  last_name :: string
  salary :: "real option"
  years_of_experience :: "real option"
  date_of_birth :: "(int \<times> int \<times> int) option"
  gender :: "string option"
  industry :: "string option"
  age :: "int option"

text \<open>\<open>app/models/responses.py\<close>: \<open>PersonRecord\<close>, \<open>PaginationMeta\<close>, \<open>PaginatedDataResponse\<close>.\<close>

record PersonRecord =
  pr_first_name :: string
  pr_last_name :: string
  pr_salary :: "real option"
  pr_years_of_experience :: "real option"
  pr_industry :: "string option"

record PaginationMeta =
  total_records :: int
  current_page :: int
  total_pages :: int
  next_page :: "int option"
  prev_page :: "int option"

record PaginatedDataResponse =
  data :: "PersonRecord list"
  pagination :: PaginationMeta

datatype error =
    HTTPException nat string
  | ZeroDivisionError
  | FileError
  | ResponseValidationError "string list"

section \<open>Paginated listing\<close>

text \<open>
  Python's slice \<open>xs[a:b]\<close> (also what \<open>df.iloc[a:b]\<close> does on rows): a negative bound
  counts from the end, and both bounds are clamped to the length.
\<close>

definition slice_bound :: "int \<Rightarrow> int \<Rightarrow> int" where
  "slice_bound n i = (if i < 0 then max 0 (n + i) else min n i)"

definition py_slice :: "'a list \<Rightarrow> int \<Rightarrow> int \<Rightarrow> 'a list" where
  "py_slice xs a b =
     (let n = int (length xs); s = slice_bound n a; e = slice_bound n b
      in take (nat (e - s)) (drop (nat s) xs))"

text \<open>
  Building a \<open>PersonRecord\<close> from the dictionary of a row keeps the five declared fields
  and ignores the other columns.
\<close>

definition to_PersonRecord :: "row \<Rightarrow> PersonRecord" where
  "to_PersonRecord r =
     \<lparr> pr_first_name = first_name r, pr_last_name = last_name r, pr_salary = salary r,
       pr_years_of_experience = years_of_experience r, pr_industry = industry r \<rparr>"

text \<open>
  \<open>get_paginated_data\<close>, on the loaded frame \<open>df\<close>. The order of the source is kept: the
  range check, the slice, then the page arithmetic (\<open>//\<close> is floor division and raises
  on a zero divisor).
\<close>

definition get_paginated_data :: "row list \<Rightarrow> int \<Rightarrow> int \<Rightarrow> error + PaginatedDataResponse" where
  "get_paginated_data df offset limit =
     (let total = int (length df) in
      if offset \<ge> total then Inl (HTTPException 404 ''Page out of range'')
      else
        let page_data = map to_PersonRecord (py_slice df offset (offset + limit)) in
        if limit = 0 then Inl ZeroDivisionError
        else
          let cur = (offset div limit) + 1;
              pages = (total + limit - 1) div limit;
              nxt = (if cur < pages then Some (cur + 1) else None);
              prv = (if cur > 1 then Some (cur - 1) else None)
          in Inr \<lparr> data = page_data,
                   pagination = \<lparr> total_records = total, current_page = cur,
                                  total_pages = pages, next_page = nxt, prev_page = prv \<rparr> \<rparr>)"

section \<open>Library operations used by the queries\<close>

text \<open>
  \<open>head(n)\<close> is the row slice \<open>[:n]\<close>; \<open>dropna\<close> removes the missing entries of a
  column; \<open>unique\<close> lists the values of a column in order of first occurrence.
\<close>

definition head :: "int \<Rightarrow> 'a list \<Rightarrow> 'a list" where
  "head n xs = py_slice xs 0 n"

definition dropna :: "'a option list \<Rightarrow> 'a list" where
  "dropna xs = map the (filter (\<lambda>x. x \<noteq> None) xs)"

definition unique :: "'a list \<Rightarrow> 'a list" where
  "unique xs = rev (remdups (rev xs))"

text \<open>
  Sorting. \<open>sort_values\<close> computes an indexer (the positions of the rows in their new
  order) with the library's \<open>nargsort\<close> and takes the rows in that order. \<open>nargsort\<close>
  sets the positions of the missing keys aside, hands the other keys to the array
  library's \<open>argsort\<close> (which sorts ascending), and puts the missing positions last.
  For a descending sort it reverses the keys before \<open>argsort\<close> and the indexer after
  it, so that a stable \<open>argsort\<close> gives a stable descending sort.

  The queries leave the \<open>kind\<close> of \<open>sort_values\<close> at its default, quicksort, which the
  library documents as not stable: which of two equal keys comes first depends on the
  sorting procedure of the array library. \<open>argsort\<close> is therefore a parameter of the
  queries, and \<open>argsort_contract\<close> is what is known of it on a column: it returns a
  permutation of the positions that puts the values in ascending order.
\<close>

definition argsort_contract :: "'k::linorder list \<Rightarrow> nat list \<Rightarrow> bool" where
  "argsort_contract vs idx =
     (distinct idx \<and> length idx = length vs \<and> list_all (\<lambda>i. i < length vs) idx
      \<and> sorted_wrt (\<lambda>i j. vs ! i \<le> vs ! j) idx)"

definition non_nan_idx :: "bool \<Rightarrow> 'k option list \<Rightarrow> nat list" where
  "non_nan_idx ascending items =
     (let idx = filter (\<lambda>i. items ! i \<noteq> None) [0..<length items]
      in if ascending then idx else rev idx)"

definition non_nans :: "bool \<Rightarrow> 'k option list \<Rightarrow> 'k list" where
  "non_nans ascending items = map (\<lambda>i. the (items ! i)) (non_nan_idx ascending items)"

definition nan_idx :: "'k option list \<Rightarrow> nat list" where
  "nan_idx items = filter (\<lambda>i. items ! i = None) [0..<length items]"

definition nargsort :: "('k list \<Rightarrow> nat list) \<Rightarrow> bool \<Rightarrow> 'k option list \<Rightarrow> nat list" where
  "nargsort argsort ascending items =
     (let indexer = map (\<lambda>p. non_nan_idx ascending items ! p)
                        (argsort (non_nans ascending items));
          indexer = (if ascending then indexer else rev indexer)
      in indexer @ nan_idx items)"

definition take_rows :: "nat list \<Rightarrow> 'r list \<Rightarrow> 'r list" where
  "take_rows indexer df = map (\<lambda>i. df ! i) indexer"

definition sort_values ::
    "('k list \<Rightarrow> nat list) \<Rightarrow> ('r \<Rightarrow> 'k option) \<Rightarrow> bool \<Rightarrow> 'r list \<Rightarrow> 'r list" where
  "sort_values argsort col ascending df =
     take_rows (nargsort argsort ascending (map col df)) df"

text \<open>\<open>argsort\<close> meets its contract on the values that \<open>nargsort\<close> hands to it.\<close>

definition argsort_ok :: "('k::linorder list \<Rightarrow> nat list) \<Rightarrow> bool \<Rightarrow> 'k option list \<Rightarrow> bool" where
  "argsort_ok argsort ascending items =
     argsort_contract (non_nans ascending items) (argsort (non_nans ascending items))"

text \<open>
  What the indexer of a descending sort has to satisfy: a permutation of the positions,
  keys descending, missing keys last. \<open>ties_in_order\<close> says in addition that rows with
  equal keys keep their original relative order.
\<close>

definition desc_na_last :: "'k::linorder option \<Rightarrow> 'k option \<Rightarrow> bool" where
  "desc_na_last a b =
     (case b of None \<Rightarrow> True
      | Some y \<Rightarrow> (case a of None \<Rightarrow> False | Some x \<Rightarrow> y \<le> x))"

definition sort_values_contract :: "'k::linorder option list \<Rightarrow> nat list \<Rightarrow> bool" where
  "sort_values_contract keys idx =
     (distinct idx \<and> length idx = length keys \<and> list_all (\<lambda>i. i < length keys) idx
      \<and> sorted_wrt (\<lambda>i j. desc_na_last (keys ! i) (keys ! j)) idx)"

definition ties_in_order :: "'k option list \<Rightarrow> nat list \<Rightarrow> bool" where
  "ties_in_order keys idx = sorted_wrt (\<lambda>i j. keys ! i = keys ! j \<longrightarrow> i < j) idx"

text \<open>
  Two sorting procedures for \<open>argsort\<close>. \<open>insertion_argsort\<close> is insertion sort, which is
  stable. \<open>network_argsort\<close> is a compare-exchange network on four lanes, the kind of
  procedure a vectorised quicksort applies to a short array: the lanes hold the
  positions, lanes beyond the length of the array count as holding the greatest value,
  and two lanes are exchanged only when their values are strictly out of order. It
  is meant for arrays of up to four values, and it is not stable.
\<close>

fun insert_asc :: "'k::linorder list \<Rightarrow> nat \<Rightarrow> nat list \<Rightarrow> nat list" where
  "insert_asc vs i [] = [i]"
| "insert_asc vs i (j # js) =
     (if vs ! i \<le> vs ! j then i # j # js else j # insert_asc vs i js)"

definition insertion_argsort :: "'k::linorder list \<Rightarrow> nat list" where
  "insertion_argsort vs = foldr (insert_asc vs) [0..<length vs] []"

definition cmp_exchange :: "'k::linorder list \<Rightarrow> nat list \<Rightarrow> nat \<times> nat \<Rightarrow> nat list" where
  "cmp_exchange vs lanes p =
     (case p of (a, b) \<Rightarrow>
        if b < length lanes \<and> vs ! (lanes ! b) < vs ! (lanes ! a)
        then lanes[a := lanes ! b, b := lanes ! a] else lanes)"

definition network_argsort :: "'k::linorder list \<Rightarrow> nat list" where
  "network_argsort vs =
     foldl (cmp_exchange vs) [0..<length vs] [(0, 1), (2, 3), (0, 3), (1, 2), (0, 1), (2, 3)]"

text \<open>
  \<open>value_counts\<close>: the distinct values in order of first occurrence, each with the number
  of its occurrences, then sorted by count with \<open>sort_values(ascending=False)\<close>. Which
  kind of sort the library asks for there depends on its version, so \<open>argsort\<close> is a
  parameter here as well.
\<close>

definition first_seen_counts :: "'a list \<Rightarrow> nat list" where
  "first_seen_counts xs = map (\<lambda>k. count_list xs k) (unique xs)"

definition value_counts :: "(nat list \<Rightarrow> nat list) \<Rightarrow> 'a list \<Rightarrow> ('a \<times> nat) list" where
  "value_counts argsort xs =
     (let ks = unique xs;
          cs = first_seen_counts xs;
          idx = nargsort argsort False (map Some cs)
      in map (\<lambda>i. (ks ! i, cs ! i)) idx)"

text \<open>
  \<open>describe\<close> on a numeric column: the eight statistics over the non-missing values, a
  statistic that cannot be computed being missing (NaN). The standard deviation divides
  by \<open>n - 1\<close>; the percentiles interpolate linearly between ranked values.
\<close>

definition mean :: "real list \<Rightarrow> real" where
  "mean xs = sum_list xs / real (length xs)"

definition std :: "real list \<Rightarrow> real" where
  "std xs = sqrt (sum_list (map (\<lambda>x. (x - mean xs)\<^sup>2) xs) / real (length xs - 1))"

definition quantile :: "real list \<Rightarrow> real \<Rightarrow> real" where
  "quantile xs q =
     (let s = sort xs;
          pos = q * real (length xs - 1);
          lo = nat \<lfloor>pos\<rfloor>;
          hi = min (lo + 1) (length xs - 1)
      in s ! lo + (s ! hi - s ! lo) * (pos - real lo))"

definition describe :: "real option list \<Rightarrow> (string \<times> real option) list" where
  "describe col =
     (let xs = dropna col; n = length xs;
          some = (\<lambda>v. if n = 0 then None else Some v)
      in [ (''count'', Some (real n)),
           (''mean'', some (mean xs)),
           (''std'', if n \<le> 1 then None else Some (std xs)),
           (''min'', some (Min (set xs))),
           (''25%'', some (quantile xs (1/4))),
           (''50%'', some (quantile xs (1/2))),
           (''75%'', some (quantile xs (3/4))),
           (''max'', some (Max (set xs))) ])"

text \<open>\<open>.dropna().to_dict()\<close> on the result of \<open>describe\<close>: the entries that have a value.\<close>

definition dropna_to_dict :: "(string \<times> real option) list \<Rightarrow> (string \<times> real) list" where
  "dropna_to_dict kvs = map (\<lambda>(k, v). (k, the v)) (filter (\<lambda>(k, v). v \<noteq> None) kvs)"

section \<open>Query functions\<close>

text \<open>
  Each query function of \<open>app/services/statistics.py\<close> starts with
  \<open>df = load_dataframe()\<close>; its body is modelled as a function of \<open>df\<close>.
\<close>

text \<open>Python's truth value of \<open>Optional[str]\<close>: \<open>None\<close> and the empty string are false.\<close>

definition truthy :: "string option \<Rightarrow> bool" where
  "truthy s = (case s of None \<Rightarrow> False | Some t \<Rightarrow> t \<noteq> [])"

definition industry_subset :: "row list \<Rightarrow> string option \<Rightarrow> row list" where
  "industry_subset df ind = (if truthy ind then filter (\<lambda>r. industry r = ind) df else df)"

definition get_salary_stats :: "row list \<Rightarrow> string option \<Rightarrow> (string \<times> real) list" where
  "get_salary_stats df ind = dropna_to_dict (describe (map salary (industry_subset df ind)))"

definition get_experience_stats :: "row list \<Rightarrow> string option \<Rightarrow> (string \<times> real) list" where
  "get_experience_stats df ind =
     dropna_to_dict (describe (map years_of_experience (industry_subset df ind)))"

definition get_industry_distribution ::
    "(nat list \<Rightarrow> nat list) \<Rightarrow> row list \<Rightarrow> int \<Rightarrow> (string \<times> nat) list" where
  "get_industry_distribution argsort df top_n =
     head top_n (value_counts argsort (dropna (map industry df)))"

definition get_gender_distribution ::
    "(nat list \<Rightarrow> nat list) \<Rightarrow> row list \<Rightarrow> (string option \<times> nat) list" where
  "get_gender_distribution argsort df = value_counts argsort (map gender df)"

text \<open>
  The top-n queries select four columns of the sorted frame; the result is given as
  \<open>PersonRecord\<close>s, a column that was not selected being absent (\<open>None\<close>).
\<close>

definition earner_record :: "row \<Rightarrow> PersonRecord" where
  "earner_record r =
     \<lparr> pr_first_name = first_name r, pr_last_name = last_name r, pr_salary = salary r,
       pr_years_of_experience = None, pr_industry = industry r \<rparr>"

definition experienced_record :: "row \<Rightarrow> PersonRecord" where
  "experienced_record r =
     \<lparr> pr_first_name = first_name r, pr_last_name = last_name r, pr_salary = None,
       pr_years_of_experience = years_of_experience r, pr_industry = industry r \<rparr>"

definition get_top_earners ::
    "(real list \<Rightarrow> nat list) \<Rightarrow> row list \<Rightarrow> int \<Rightarrow> PersonRecord list" where
  "get_top_earners argsort df n =
     map earner_record (head n (sort_values argsort salary False df))"

definition get_top_experienced ::
    "(real list \<Rightarrow> nat list) \<Rightarrow> row list \<Rightarrow> int \<Rightarrow> PersonRecord list" where
  "get_top_experienced argsort df n =
     map experienced_record (head n (sort_values argsort years_of_experience False df))"

text \<open>
  \<open>get_correlations\<close>. \<open>DataFrame.corr\<close> is Pearson's coefficient over the rows where both
  columns have a value; it is NaN with no such row, and when the divisor
  \<open>sqrt (ssx * ssy)\<close> is zero (a single row, or a constant column). A coefficient that
  is not NaN is rounded to four decimals (round half to even).
\<close>

record CorrelationResponse =
  salary_vs_experience :: "real option"
  experience_vs_age :: "real option"

definition paired :: "row list \<Rightarrow> (row \<Rightarrow> real option) \<Rightarrow> (row \<Rightarrow> real option) \<Rightarrow> (real \<times> real) list" where
  "paired df f g =
     map (\<lambda>r. (the (f r), the (g r))) (filter (\<lambda>r. f r \<noteq> None \<and> g r \<noteq> None) df)"

definition corr :: "(real \<times> real) list \<Rightarrow> real option" where
  "corr ps =
     (let xs = map fst ps; ys = map snd ps in
      if length ps < 1 then None
      else
        let ssx = sum_list (map (\<lambda>x. (x - mean xs)\<^sup>2) xs);
            ssy = sum_list (map (\<lambda>y. (y - mean ys)\<^sup>2) ys);
            cov = sum_list (map (\<lambda>(x, y). (x - mean xs) * (y - mean ys)) ps);
            divisor = sqrt (ssx * ssy)
        in if divisor \<noteq> 0 then Some (cov / divisor) else None)"

definition round_half_even :: "real \<Rightarrow> int" where
  "round_half_even y =
     (let f = \<lfloor>y\<rfloor>; d = y - real_of_int f
      in if d < 1/2 then f else if 1/2 < d then f + 1 else if even f then f else f + 1)"

definition round4 :: "real \<Rightarrow> real" where
  "round4 x = real_of_int (round_half_even (x * 10000)) / 10000"

definition age_real :: "row \<Rightarrow> real option" where
  "age_real r = map_option real_of_int (age r)"

definition get_correlations :: "row list \<Rightarrow> CorrelationResponse" where
  "get_correlations df =
     (let corr1 = corr (paired df salary years_of_experience);
          corr2 = corr (paired df years_of_experience age_real)
      in \<lparr> salary_vs_experience = map_option round4 corr1,
           experience_vs_age = map_option round4 corr2 \<rparr>)"

section \<open>Endpoints with a statistics response model\<close>

text \<open>
  \<open>app/models/responses.py\<close>: \<open>StatsResponse\<close> declares \<open>count\<close>, \<open>mean\<close>, \<open>std\<close>, \<open>min\<close>
  and \<open>max\<close> as required floats; the three percentiles are optional, default \<open>None\<close>,
  and are filled from the keys \<open>25%\<close>, \<open>50%\<close>, \<open>75%\<close>.
\<close>

record StatsResponse =
  sr_count :: real
  sr_mean :: real
  sr_std :: real
  sr_min :: real
  sr_p25 :: "real option"
  sr_p50 :: "real option"
  sr_p75 :: "real option"
  sr_max :: real

text \<open>
  The endpoints \<open>/salary/stats\<close> and \<open>/experience/stats\<close> return the dictionary of the
  query under \<open>response_model=StatsResponse\<close>: the framework validates the dictionary
  against the model, and a required field without a key is a validation error of the
  response (the request fails), listing the fields that are missing.
\<close>

definition validate_StatsResponse :: "(string \<times> real) list \<Rightarrow> error + StatsResponse" where
  "validate_StatsResponse d =
     (let missing = filter (\<lambda>k. map_of d k = None) [''count'', ''mean'', ''std'', ''min'', ''max'']
      in if missing \<noteq> [] then Inl (ResponseValidationError missing)
         else Inr \<lparr> sr_count = the (map_of d ''count''), sr_mean = the (map_of d ''mean''),
                    sr_std = the (map_of d ''std''), sr_min = the (map_of d ''min''),
                    sr_p25 = map_of d ''25%'', sr_p50 = map_of d ''50%'',
                    sr_p75 = map_of d ''75%'', sr_max = the (map_of d ''max'') \<rparr>)"

definition salary_stats :: "row list \<Rightarrow> string option \<Rightarrow> error + StatsResponse" where
  "salary_stats df ind = validate_StatsResponse (get_salary_stats df ind)"

definition experience_stats :: "row list \<Rightarrow> string option \<Rightarrow> error + StatsResponse" where
  "experience_stats df ind = validate_StatsResponse (get_experience_stats df ind)"

section \<open>The loader and its cache\<close>

text \<open>
  What \<open>load_dataframe\<close> depends on outside the program: the content of the file at
  \<open>DATA_PATH\<close> at each read (or the failure to read it), the current date at each load,
  and the library's parsers of numeric strings and of dates in the format
  \<open>%d/%m/%Y\<close> (\<open>None\<close> where \<open>errors="coerce"\<close> gives a missing value).
\<close>

datatype json = JNull | JNum real | JStr string

record raw_row =
  raw_first_name :: string
  raw_last_name :: string
  raw_salary :: json
  raw_years_of_experience :: json
  raw_date_of_birth :: json
  raw_gender :: "string option"
  raw_industry :: "string option"

record world =
  read_source :: "nat \<Rightarrow> error + raw_row list"
  today :: "nat \<Rightarrow> int \<times> int \<times> int"
  parse_number :: "string \<Rightarrow> real option"
  parse_date :: "string \<Rightarrow> (int \<times> int \<times> int) option"

text \<open>\<open>calculate_age\<close>: dates are (year, month, day); the comparison is on (month, day).\<close>

fun calculate_age :: "int \<times> int \<times> int \<Rightarrow> int \<times> int \<times> int \<Rightarrow> int" where
  "calculate_age (ty, tm, td) (yr, mo, dy) =
     ty - yr - (if tm < mo \<or> (tm = mo \<and> td < dy) then 1 else 0)"

definition to_numeric :: "world \<Rightarrow> json \<Rightarrow> real option" where
  "to_numeric w j = (case j of JNull \<Rightarrow> None | JNum x \<Rightarrow> Some x | JStr s \<Rightarrow> parse_number w s)"

definition to_datetime :: "world \<Rightarrow> json \<Rightarrow> (int \<times> int \<times> int) option" where
  "to_datetime w j = (case j of JStr s \<Rightarrow> parse_date w s | _ \<Rightarrow> None)"

definition preprocess :: "world \<Rightarrow> nat \<Rightarrow> raw_row list \<Rightarrow> row list" where
  "preprocess w k raw =
     map (\<lambda>r. let born = to_datetime w (raw_date_of_birth r) in
            \<lparr> first_name = raw_first_name r, last_name = raw_last_name r,
              salary = to_numeric w (raw_salary r),
              years_of_experience = to_numeric w (raw_years_of_experience r),
              date_of_birth = born, gender = raw_gender r, industry = raw_industry r,
              age = map_option (calculate_age (today w k)) born \<rparr>) raw"

text \<open>
  The state of the process: the cache of \<open>@lru_cache\<close> (empty, or the one frame built,
  with the number of the read that built it as its identity) and the number of times
  the file has been opened. A call that raises stores nothing in the cache.
\<close>

record loader_state =
  cache :: "(nat \<times> row list) option"
  reads :: nat


definition load_dataframe :: "world \<Rightarrow> loader_state \<Rightarrow> (error + nat \<times> row list) \<times> loader_state" where
  "load_dataframe w st =
     (case cache st of
        Some inst \<Rightarrow> (Inr inst, st)
      | None \<Rightarrow>
          (case read_source w (reads st) of
             Inl e \<Rightarrow> (Inl e, st\<lparr> reads := reads st + 1 \<rparr>)
           | Inr raw \<Rightarrow>
               let inst = (reads st, preprocess w (reads st) raw)
               in (Inr inst, st\<lparr> cache := Some inst, reads := reads st + 1 \<rparr>)))"



section \<open>Example data\<close>

definition mk_row :: "string \<Rightarrow> real option \<Rightarrow> real option \<Rightarrow> string option \<Rightarrow> string option \<Rightarrow> row" where
  "mk_row nm sal yrs gen ind =
     \<lparr> first_name = nm, last_name = ''X'', salary = sal, years_of_experience = yrs,
       date_of_birth = None, gender = gen, industry = ind, age = None \<rparr>"

definition ex_df :: "row list" where
  "ex_df =
     [ mk_row ''Ann'' (Some 50) (Some 3) (Some ''F'') (Some ''Tech''),
       mk_row ''Bob'' None (Some 7) None (Some ''Retail''),
       mk_row ''Cy'' (Some 70) None (Some ''M'') None ]"

text \<open>A frame with ties: Ann and Bob earn the same, Tech and Retail have one record each.\<close>

definition tie_df :: "row list" where
  "tie_df =
     [ mk_row ''Ann'' (Some 50) (Some 3) (Some ''F'') (Some ''Tech''),
       mk_row ''Bob'' (Some 50) (Some 3) (Some ''M'') (Some ''Retail''),
       mk_row ''Cy'' (Some 70) (Some 9) (Some ''M'') None ]"

text \<open>
  Two frames with ties that come after smaller values: the salaries 50, 50, 70, 70,
  and industries seen in the order Tech, Retail, Health, Finance with 1, 1, 2, 2
  records.
\<close>

definition four_df :: "row list" where
  "four_df =
     [ mk_row ''Ann'' (Some 50) (Some 3) (Some ''F'') (Some ''Tech''),
       mk_row ''Bob'' (Some 50) (Some 3) (Some ''M'') (Some ''Retail''),
       mk_row ''Cy'' (Some 70) (Some 9) (Some ''M'') (Some ''Tech''),
       mk_row ''Dee'' (Some 70) (Some 9) (Some ''F'') (Some ''Retail'') ]"

definition six_df :: "row list" where
  "six_df =
     [ mk_row ''Ann'' (Some 50) (Some 3) (Some ''F'') (Some ''Tech''),
       mk_row ''Bob'' (Some 55) (Some 4) (Some ''M'') (Some ''Retail''),
       mk_row ''Cy'' (Some 60) (Some 5) (Some ''M'') (Some ''Health''),
       mk_row ''Dee'' (Some 65) (Some 6) (Some ''F'') (Some ''Health''),
       mk_row ''Eve'' (Some 70) (Some 7) (Some ''F'') (Some ''Finance''),
       mk_row ''Fay'' (Some 75) (Some 8) (Some ''F'') (Some ''Finance'') ]"

text \<open>A frame whose industries differ in case, with one empty industry name.\<close>

definition case_df :: "row list" where
  "case_df =
     [ mk_row ''Ann'' (Some 50) (Some 3) (Some ''F'') (Some ''Tech''),
       mk_row ''Dan'' (Some 80) (Some 5) (Some ''M'') (Some ''tech''),
       mk_row ''Eve'' (Some 60) (Some 4) (Some ''F'') (Some []) ]"




section \<open>Pagination: the not-found case\<close>

lemma length_ex_df: "length ex_df = 3"
  by (simp add: ex_df_def)

text \<open>
  C1. For \<open>limit \<ge> 1\<close> and \<open>offset \<ge> 0\<close> the listing fails with the 404 exception exactly
  when \<open>offset\<close> is at least the number of records; the failure is the exception alone
  (no response, so no record data), and below that bound a response is returned.
\<close>

theorem paginated_not_found_iff:
  assumes "limit \<ge> 1" and "offset \<ge> 0"
  shows "((get_paginated_data df offset limit = Inl (HTTPException 404 ''Page out of range''))
            = (offset \<ge> int (length df)))
         \<and> ((\<exists>r. get_paginated_data df offset limit = Inr r) = (offset < int (length df)))"
  using assms by (auto simp: get_paginated_data_def Let_def)

theorem paginated_not_found_iff_witness:
  "(1::int) \<le> 2 \<and> (0::int) \<le> 3
   \<and> get_paginated_data ex_df 3 2 = Inl (HTTPException 404 ''Page out of range'')
   \<and> \<not> (\<exists>r. get_paginated_data ex_df 3 2 = Inr r)
   \<and> (\<exists>r. get_paginated_data ex_df 2 2 = Inr r)"
  using paginated_not_found_iff [of 2 3 ex_df] paginated_not_found_iff [of 2 2 ex_df]
  by (simp add: length_ex_df)

section \<open>Pagination: slice and metadata\<close>

lemma py_slice_valid:
  assumes "0 \<le> a" and "a \<le> int (length xs)" and "0 \<le> k"
  shows "py_slice xs a (a + k) = take (nat (min k (int (length xs) - a))) (drop (nat a) xs)"
  using assms by (auto simp: py_slice_def slice_bound_def Let_def min_def)

lemma neg_div_neg:
  assumes "(1::int) \<le> b"
  shows "- (- a div b) = (a + b - 1) div b"
proof -
  define q where "q = a div b"
  define r where "r = a mod b"
  have ab: "a = b * q + r" "0 \<le> r" "r < b" using assms by (auto simp: q_def r_def)
  show ?thesis
  proof (cases "r = 0")
    case True
    have "- a div b = - q"
      by (rule int_div_pos_eq [where r = 0]) (use ab True assms in auto)
    moreover have "(a + b - 1) div b = q"
      by (rule int_div_pos_eq [where r = "b - 1"]) (use ab True assms in auto)
    ultimately show ?thesis by simp
  next
    case False
    have "- a div b = - q - 1"
      by (rule int_div_pos_eq [where r = "b - r"]) (use ab False assms in \<open>auto simp: algebra_simps\<close>)
    moreover have "(a + b - 1) div b = q + 1"
      by (rule int_div_pos_eq [where r = "r - 1"]) (use ab False assms in \<open>auto simp: algebra_simps\<close>)
    ultimately show ?thesis by simp
  qed
qed

lemma ceil_div_int:
  assumes "(1::int) \<le> b"
  shows "(a + b - 1) div b = \<lceil>real_of_int a / real_of_int b\<rceil>"
  using neg_div_neg [OF assms, of a] by (simp add: ceiling_divide_eq_div)

lemma cur_page_bounds:
  assumes "(1::int) \<le> l" and "0 \<le> off"
  shows "(off div l + 1) * l - l \<le> off \<and> off < (off div l + 1) * l"
proof -
  define q where "q = off div l"
  define r where "r = off mod l"
  have "off = l * q + r" "0 \<le> r" "r < l" using assms by (auto simp: q_def r_def)
  then have "(q + 1) * l - l \<le> off \<and> off < (q + 1) * l" by (simp add: algebra_simps)
  then show ?thesis by (simp add: q_def)
qed

lemma cur_le_pages:
  assumes "(1::int) \<le> l" and "0 \<le> off" and "off < t"
  shows "off div l + 1 \<le> (t + l - 1) div l"
proof -
  have "off + l \<le> t + l - 1" using assms by simp
  then have "(off + l) div l \<le> (t + l - 1) div l" using assms by (intro zdiv_mono1) auto
  then show ?thesis using assms by simp
qed

text \<open>
  C4. For \<open>limit \<ge> 1\<close> and \<open>0 \<le> offset < total\<close> the listing's data is the slice of the
  frame that starts at \<open>offset\<close> and has \<open>min limit (total - offset)\<close> rows, in the
  frame's order (each row as its \<open>PersonRecord\<close>).
\<close>

theorem paginated_slice:
  assumes "limit \<ge> 1" and "0 \<le> offset" and "offset < int (length df)"
  shows "\<exists>r. get_paginated_data df offset limit = Inr r
           \<and> data r = map to_PersonRecord
                 (take (nat (min limit (int (length df) - offset))) (drop (nat offset) df))
           \<and> int (length (data r)) = min limit (int (length df) - offset)
           \<and> (\<forall>i < length (data r). data r ! i = to_PersonRecord (df ! (nat offset + i)))"
  using assms py_slice_valid [of offset df limit]
  by (auto simp: get_paginated_data_def Let_def min_def)

theorem paginated_slice_witness:
  "(1::int) \<le> 2 \<and> (0::int) \<le> 1 \<and> (1::int) < int (length ex_df)
   \<and> (\<exists>r. get_paginated_data ex_df 1 2 = Inr r
          \<and> data r = map to_PersonRecord [ex_df ! 1, ex_df ! 2]
          \<and> length (data r) = 2)"
  using paginated_slice [of 2 1 ex_df]
  by (auto simp: ex_df_def)

text \<open>
  C5. For the same inputs the metadata is: \<open>current_page = offset div limit + 1\<close>, so
  \<open>current_page * limit - limit \<le> offset < current_page * limit\<close>; \<open>total_pages\<close> is the
  ceiling of \<open>total / limit\<close>; \<open>next_page\<close> is \<open>None\<close> exactly on the last page and
  \<open>prev_page\<close> is \<open>None\<close> exactly on the first page.
\<close>

theorem paginated_metadata:
  assumes "1 \<le> limit" and "0 \<le> offset" and "offset < int (length df)"
  shows "\<exists>r. get_paginated_data df offset limit = Inr r
           \<and> total_records (pagination r) = int (length df)
           \<and> current_page (pagination r) = offset div limit + 1
           \<and> current_page (pagination r) * limit - limit \<le> offset
           \<and> offset < current_page (pagination r) * limit
           \<and> total_pages (pagination r) = \<lceil>real_of_int (int (length df)) / real_of_int limit\<rceil>
           \<and> 1 \<le> current_page (pagination r)
           \<and> current_page (pagination r) \<le> total_pages (pagination r)
           \<and> (next_page (pagination r) = None)
                = (current_page (pagination r) = total_pages (pagination r))
           \<and> (current_page (pagination r) < total_pages (pagination r)
                \<longrightarrow> next_page (pagination r) = Some (current_page (pagination r) + 1))
           \<and> (prev_page (pagination r) = None) = (current_page (pagination r) = 1)
           \<and> (1 < current_page (pagination r)
                \<longrightarrow> prev_page (pagination r) = Some (current_page (pagination r) - 1))"
proof -
  define t where "t = int (length df)"
  define cur where "cur = offset div limit + 1"
  define pages where "pages = (t + limit - 1) div limit"
  define r where "r = \<lparr> data = map to_PersonRecord (py_slice df offset (offset + limit)),
      pagination = \<lparr> total_records = t, current_page = cur, total_pages = pages,
        next_page = (if cur < pages then Some (cur + 1) else None),
        prev_page = (if cur > 1 then Some (cur - 1) else None) \<rparr> \<rparr>"
  have run: "get_paginated_data df offset limit = Inr r"
    using assms by (simp add: get_paginated_data_def Let_def r_def t_def cur_def pages_def)
  have b: "cur * limit - limit \<le> offset \<and> offset < cur * limit"
    unfolding cur_def using assms by (intro cur_page_bounds) auto
  have c: "pages = \<lceil>real_of_int t / real_of_int limit\<rceil>"
    unfolding pages_def using assms(1) by (rule ceil_div_int)
  have le: "cur \<le> pages"
    unfolding cur_def pages_def t_def using assms by (intro cur_le_pages) auto
  have one: "1 \<le> cur"
    unfolding cur_def using assms by (simp add: pos_imp_zdiv_nonneg_iff)
  have sel: "total_records (pagination r) = t" "current_page (pagination r) = cur"
    "total_pages (pagination r) = pages"
    "next_page (pagination r) = (if cur < pages then Some (cur + 1) else None)"
    "prev_page (pagination r) = (if cur > 1 then Some (cur - 1) else None)"
    by (simp_all add: r_def)
  have nx: "(next_page (pagination r) = None) = (cur = pages)"
    using le by (auto simp: sel)
  have pv: "(prev_page (pagination r) = None) = (cur = 1)"
    using one by (auto simp: sel)
  show ?thesis
    apply (rule exI [of _ r])
    unfolding nx pv
    unfolding sel(1,2,3)
    using run b c le one sel(4,5)
    by (simp add: t_def cur_def)
qed

theorem paginated_metadata_witness:
  "(1::int) \<le> 2 \<and> (0::int) \<le> 2 \<and> (2::int) < int (length ex_df)
   \<and> (\<exists>r. get_paginated_data ex_df 2 2 = Inr r
          \<and> current_page (pagination r) = 2 \<and> total_pages (pagination r) = 2
          \<and> next_page (pagination r) = None \<and> prev_page (pagination r) = Some 1)"
  using paginated_metadata [of 2 2 ex_df]
  by (auto simp: length_ex_df)

section \<open>Sorting and value counts: auxiliary facts\<close>

lemma head_take: "0 \<le> n \<Longrightarrow> head n xs = take (nat n) xs"
  by (auto simp: head_def py_slice_def slice_bound_def Let_def min_def)

lemma contract_set:
  assumes "sort_values_contract keys idx"
  shows "set idx = {0..<length keys}"
proof -
  have d: "distinct idx" and l: "length idx = length keys"
    and b: "\<forall>i\<in>set idx. i < length keys"
    using assms by (auto simp: sort_values_contract_def list_all_iff)
  have "set idx \<subseteq> {0..<length keys}" using b by auto
  moreover have "card (set idx) = card {0..<length keys}"
    using d l by (simp add: distinct_card)
  ultimately show ?thesis by (simp add: card_subset_eq)
qed

lemma contract_mset:
  assumes "sort_values_contract keys idx"
  shows "mset idx = mset [0..<length keys]"
proof -
  have "distinct idx" using assms by (simp add: sort_values_contract_def)
  moreover have "set idx = set [0..<length keys]" using contract_set [OF assms] by simp
  ultimately show ?thesis by (metis distinct_upt set_eq_iff_mset_eq_distinct)
qed

lemma contract_sorted_keys:
  assumes "sort_values_contract (map f df) idx"
  shows "sorted_wrt (\<lambda>i j. desc_na_last (f (df ! i)) (f (df ! j))) idx"
proof -
  have s: "sorted_wrt (\<lambda>i j. desc_na_last (map f df ! i) (map f df ! j)) idx"
    and b: "\<forall>i\<in>set idx. i < length df"
    using assms by (auto simp: sort_values_contract_def list_all_iff)
  show ?thesis
    by (rule sorted_wrt_mono_rel [OF _ s]) (use b in auto)
qed

lemma ties_keys:
  assumes "ties_in_order (map f df) idx" and "\<forall>i\<in>set idx. i < length df"
  shows "sorted_wrt (\<lambda>i j. f (df ! i) = f (df ! j) \<longrightarrow> i < j) idx"
  by (rule sorted_wrt_mono_rel [OF _ assms(1) [unfolded ties_in_order_def]]) (use assms(2) in auto)

lemma desc_na_last_None: "desc_na_last None b \<Longrightarrow> b = None"
  by (cases b) (auto simp: desc_na_last_def)

text \<open>
  The indexer of a descending \<open>nargsort\<close> is a permutation of the positions with the
  keys descending and the missing keys last, whenever \<open>argsort\<close> sorts the values it is
  given in ascending order.
\<close>

lemma set_non_nan_idx:
  "set (non_nan_idx asc items) = {i. i < length items \<and> items ! i \<noteq> None}"
  by (auto simp: non_nan_idx_def Let_def)

lemma distinct_non_nan_idx: "distinct (non_nan_idx asc items)"
  by (simp add: non_nan_idx_def Let_def)

lemma length_non_nans: "length (non_nans asc items) = length (non_nan_idx asc items)"
  by (simp add: non_nans_def)

lemma set_nan_idx: "set (nan_idx items) = {i. i < length items \<and> items ! i = None}"
  by (auto simp: nan_idx_def)

lemma length_idx_split:
  "length (non_nan_idx asc items) + length (nan_idx items) = length items"
proof -
  have "length (filter (\<lambda>i. items ! i \<noteq> None) [0..<length items])
      + length (filter (\<lambda>i. \<not> items ! i \<noteq> None) [0..<length items]) = length [0..<length items]"
    by (rule sum_length_filter_compl)
  then show ?thesis by (simp add: non_nan_idx_def nan_idx_def Let_def)
qed

lemma non_nans_nth:
  assumes "p < length (non_nan_idx asc items)"
  shows "items ! (non_nan_idx asc items ! p) = Some (non_nans asc items ! p)"
proof -
  have "non_nan_idx asc items ! p \<in> set (non_nan_idx asc items)" using assms by simp
  then have "items ! (non_nan_idx asc items ! p) \<noteq> None" by (simp add: set_non_nan_idx)
  then show ?thesis using assms by (auto simp: non_nans_def)
qed

lemma nargsort_desc_contract:
  assumes "argsort_ok argsort False items"
  shows "sort_values_contract items (nargsort argsort False items)"
proof -
  define P where "P = non_nan_idx False items"
  define vs where "vs = non_nans False items"
  define a where "a = argsort vs"
  define I0 where "I0 = map (\<lambda>p. P ! p) a"
  have c: "argsort_contract vs a"
    using assms by (simp add: argsort_ok_def vs_def a_def)
  have lv: "length vs = length P" by (simp add: vs_def P_def length_non_nans)
  have da: "distinct a" and la: "length a = length P"
    and ba: "\<forall>p\<in>set a. p < length P"
    and sa: "sorted_wrt (\<lambda>i j. vs ! i \<le> vs ! j) a"
    using c lv by (auto simp: argsort_contract_def list_all_iff)
  have dP: "distinct P" by (simp add: P_def distinct_non_nan_idx)
  have n: "nargsort argsort False items = rev I0 @ nan_idx items"
    by (simp add: nargsort_def Let_def I0_def P_def a_def vs_def)
  have sI0: "set I0 \<subseteq> set P" using ba by (auto simp: I0_def)
  have "inj_on (\<lambda>p. P ! p) (set a)"
    using dP ba by (auto simp: inj_on_def nth_eq_iff_index_eq)
  then have dI0: "distinct I0" using da by (simp add: I0_def distinct_map)
  have disj: "set I0 \<inter> set (nan_idx items) = {}"
    using sI0 by (auto simp: P_def set_non_nan_idx set_nan_idx)
  have 1: "distinct (rev I0 @ nan_idx items)"
    using dI0 disj by (simp add: nan_idx_def)
  have 2: "length (rev I0 @ nan_idx items) = length items"
    using length_idx_split [of False items] la by (simp add: I0_def P_def)
  have 3: "\<forall>i\<in>set (rev I0 @ nan_idx items). i < length items"
    using sI0 by (auto simp: P_def set_non_nan_idx set_nan_idx)
  have key: "items ! (P ! p) = Some (vs ! p)" if "p \<in> set a" for p
    using that ba non_nans_nth [of p False items] by (simp add: P_def vs_def)
  have "sorted_wrt (\<lambda>p q. desc_na_last (items ! (P ! q)) (items ! (P ! p))) a"
    by (rule sorted_wrt_mono_rel [OF _ sa]) (simp add: key desc_na_last_def)
  then have s1: "sorted_wrt (\<lambda>i j. desc_na_last (items ! i) (items ! j)) (rev I0)"
    by (simp add: sorted_wrt_rev I0_def sorted_wrt_map)
  have "sorted_wrt (\<lambda>i j. True) (nan_idx items)" by (simp add: sorted_wrt_true)
  then have s2: "sorted_wrt (\<lambda>i j. desc_na_last (items ! i) (items ! j)) (nan_idx items)"
    by (rule sorted_wrt_mono_rel [rotated]) (simp add: set_nan_idx desc_na_last_def)
  have s3: "\<forall>x\<in>set (rev I0). \<forall>y\<in>set (nan_idx items). desc_na_last (items ! x) (items ! y)"
    by (simp add: set_nan_idx desc_na_last_def)
  have 4: "sorted_wrt (\<lambda>i j. desc_na_last (items ! i) (items ! j)) (rev I0 @ nan_idx items)"
    using s1 s2 s3 by (simp add: sorted_wrt_append)
  show ?thesis
    unfolding n sort_values_contract_def list_all_iff using 1 2 3 4 by blast
qed

text \<open>Insertion sort meets the contract of \<open>argsort\<close> on every array.\<close>

lemma set_insert_asc: "set (insert_asc vs i js) = insert i (set js)"
  by (induction js) auto

lemma length_insert_asc: "length (insert_asc vs i js) = Suc (length js)"
  by (induction js) auto

lemma distinct_insert_asc:
  "i \<notin> set js \<Longrightarrow> distinct js \<Longrightarrow> distinct (insert_asc vs i js)"
  by (induction js) (auto simp: set_insert_asc)

lemma sorted_insert_asc:
  assumes "sorted_wrt (\<lambda>a b. vs ! a \<le> vs ! b) js"
  shows "sorted_wrt (\<lambda>a b. vs ! a \<le> vs ! b) (insert_asc vs i js)"
  using assms
proof (induction js)
  case Nil
  then show ?case by simp
next
  case (Cons j js)
  show ?case
  proof (cases "vs ! i \<le> vs ! j")
    case True
    then have "\<forall>x\<in>set js. vs ! i \<le> vs ! x" using Cons.prems by auto
    then show ?thesis using True Cons.prems by simp
  next
    case False
    then have "vs ! j \<le> vs ! i" by simp
    then show ?thesis using False Cons by (auto simp: set_insert_asc)
  qed
qed

lemma foldr_insert_asc:
  assumes "distinct is"
  shows "set (foldr (insert_asc vs) is []) = set is"
    and "distinct (foldr (insert_asc vs) is [])"
    and "length (foldr (insert_asc vs) is []) = length is"
    and "sorted_wrt (\<lambda>a b. vs ! a \<le> vs ! b) (foldr (insert_asc vs) is [])"
  using assms
  by (induction "is")
    (auto simp: set_insert_asc length_insert_asc intro: distinct_insert_asc sorted_insert_asc)

lemma insertion_argsort_contract: "argsort_contract vs (insertion_argsort vs)"
  using foldr_insert_asc [of "[0..<length vs]" vs]
  by (simp add: argsort_contract_def insertion_argsort_def list_all_iff)

lemma insertion_argsort_ok: "argsort_ok insertion_argsort asc items"
  by (simp add: argsort_ok_def insertion_argsort_contract)

text \<open>
  A stable \<open>argsort\<close> makes the descending \<open>nargsort\<close> keep rows of equal key in their
  original order; insertion sort is stable.
\<close>

lemma non_nan_idx_desc:
  assumes "p < q" and "q < length (non_nan_idx False items)"
  shows "non_nan_idx False items ! q < non_nan_idx False items ! p"
proof -
  define Q where "Q = filter (\<lambda>i. items ! i \<noteq> None) [0..<length items]"
  have s: "sorted_wrt (<) Q" unfolding Q_def by (rule sorted_wrt_filter) simp
  have P: "non_nan_idx False items = rev Q" by (simp add: non_nan_idx_def Q_def)
  have l: "q < length Q" using assms(2) by (simp add: P)
  have "Q ! (length Q - Suc q) < Q ! (length Q - Suc p)"
    by (rule sorted_wrt_nth_less [OF s]) (use assms(1) l in auto)
  then show ?thesis using assms(1) l by (simp add: P rev_nth)
qed

lemma sorted_nan_idx: "sorted_wrt (<) (nan_idx items)"
  unfolding nan_idx_def by (rule sorted_wrt_filter) simp

lemma nargsort_desc_ties:
  assumes c: "argsort_ok argsort False items"
    and st: "sorted_wrt (\<lambda>p q. non_nans False items ! p = non_nans False items ! q \<longrightarrow> p < q)
               (argsort (non_nans False items))"
  shows "ties_in_order items (nargsort argsort False items)"
proof -
  define P where "P = non_nan_idx False items"
  define vs where "vs = non_nans False items"
  define a where "a = argsort vs"
  define I0 where "I0 = map (\<lambda>p. P ! p) a"
  have lv: "length vs = length P" by (simp add: vs_def P_def length_non_nans)
  have ba: "\<forall>p\<in>set a. p < length P"
    using c lv by (auto simp: argsort_ok_def argsort_contract_def list_all_iff vs_def a_def)
  have n: "nargsort argsort False items = rev I0 @ nan_idx items"
    by (simp add: nargsort_def Let_def I0_def P_def a_def vs_def)
  have key: "items ! (P ! p) = Some (vs ! p)" if "p \<in> set a" for p
    using that ba non_nans_nth [of p False items] by (simp add: P_def vs_def)
  have sI0: "set I0 \<subseteq> set P" using ba by (auto simp: I0_def)
  have "sorted_wrt (\<lambda>p q. items ! (P ! q) = items ! (P ! p) \<longrightarrow> P ! q < P ! p) a"
  proof (rule sorted_wrt_mono_rel [OF _ st [folded vs_def a_def]])
    fix p q assume p: "p \<in> set a" and q: "q \<in> set a" and pq: "vs ! p = vs ! q \<longrightarrow> p < q"
    show "items ! (P ! q) = items ! (P ! p) \<longrightarrow> P ! q < P ! p"
    proof
      assume "items ! (P ! q) = items ! (P ! p)"
      then have "vs ! p = vs ! q" using key [OF p] key [OF q] by simp
      then have "p < q" using pq by simp
      then show "P ! q < P ! p"
        unfolding P_def by (rule non_nan_idx_desc) (use q ba in \<open>simp add: P_def\<close>)
    qed
  qed
  then have s1: "sorted_wrt (\<lambda>i j. items ! i = items ! j \<longrightarrow> i < j) (rev I0)"
    by (simp add: sorted_wrt_rev I0_def sorted_wrt_map)
  have s2: "sorted_wrt (\<lambda>i j. items ! i = items ! j \<longrightarrow> i < j) (nan_idx items)"
    by (rule sorted_wrt_mono_rel [OF _ sorted_nan_idx]) simp
  have s3: "\<forall>x\<in>set (rev I0). \<forall>y\<in>set (nan_idx items). items ! x = items ! y \<longrightarrow> x < y"
    using sI0 by (auto simp: P_def set_non_nan_idx set_nan_idx)
  show ?thesis
    unfolding n ties_in_order_def using s1 s2 s3 by (simp add: sorted_wrt_append)
qed

lemma stable_insert_asc:
  assumes "\<forall>j\<in>set js. i < j" and "sorted_wrt (\<lambda>p q. vs ! p = vs ! q \<longrightarrow> p < q) js"
  shows "sorted_wrt (\<lambda>p q. vs ! p = vs ! q \<longrightarrow> p < q) (insert_asc vs i js)"
  using assms
proof (induction js)
  case Nil
  then show ?case by simp
next
  case (Cons j js)
  show ?case
  proof (cases "vs ! i \<le> vs ! j")
    case True
    then show ?thesis using Cons.prems by simp
  next
    case False
    then have "vs ! j \<noteq> vs ! i" by auto
    then show ?thesis using False Cons by (auto simp: set_insert_asc)
  qed
qed

lemma insertion_argsort_stable:
  "sorted_wrt (\<lambda>p q. vs ! p = vs ! q \<longrightarrow> p < q) (insertion_argsort vs)"
proof -
  have "sorted_wrt (\<lambda>p q. vs ! p = vs ! q \<longrightarrow> p < q) (foldr (insert_asc vs) is [])"
    if "sorted_wrt (<) is" for "is"
    using that
  proof (induction "is")
    case Nil
    then show ?case by simp
  next
    case (Cons i "is")
    have "sorted_wrt (<) is" using Cons.prems by simp
    then have d: "distinct is" by (simp add: strict_sorted_iff)
    have s: "set (foldr (insert_asc vs) is []) = set is"
      by (rule foldr_insert_asc(1) [OF d])
    have "\<forall>j\<in>set (foldr (insert_asc vs) is []). i < j"
      unfolding s using Cons.prems by simp
    then show ?case using Cons by (simp add: stable_insert_asc)
  qed
  then show ?thesis by (simp add: insertion_argsort_def)
qed

lemma insertion_keeps_ties: "ties_in_order items (nargsort insertion_argsort False items)"
  by (rule nargsort_desc_ties [OF insertion_argsort_ok insertion_argsort_stable])

lemma set_unique: "set (unique xs) = set xs"
  by (simp add: unique_def)

lemma distinct_unique: "distinct (unique xs)"
  by (simp add: unique_def)

lemma length_first_seen_counts: "length (first_seen_counts xs) = length (unique xs)"
  by (simp add: first_seen_counts_def)

text \<open>The values in the order that value_counts lists them.\<close>

lemma value_counts_perm:
  assumes c: "argsort_ok argsort False (map Some (first_seen_counts xs))"
  defines "idx \<equiv> nargsort argsort False (map Some (first_seen_counts xs))"
  defines "ps \<equiv> map (\<lambda>i. unique xs ! i) idx"
  shows "value_counts argsort xs = map (\<lambda>k. (k, count_list xs k)) ps"
    and "mset ps = mset (unique xs)"
    and "sorted_wrt (\<lambda>a b. count_list xs b \<le> count_list xs a) ps"
proof -
  let ?ks = "unique xs"
  let ?cs = "first_seen_counts xs"
  have sc: "sort_values_contract (map Some ?cs) idx"
    unfolding idx_def by (rule nargsort_desc_contract [OF c])
  have b: "\<forall>i\<in>set idx. i < length ?ks"
    using sc by (auto simp: sort_values_contract_def list_all_iff idx_def length_first_seen_counts)
  have "map (\<lambda>i. (?ks ! i, ?cs ! i)) idx = map (\<lambda>i. (?ks ! i, count_list xs (?ks ! i))) idx"
    using b by (intro map_cong) (auto simp: first_seen_counts_def)
  then show "value_counts argsort xs = map (\<lambda>k. (k, count_list xs k)) ps"
    by (simp add: value_counts_def Let_def ps_def idx_def comp_def)
  have "mset idx = mset [0..<length ?ks]"
    using contract_mset [OF sc] by (simp add: length_first_seen_counts)
  then have "mset ps = mset (map (\<lambda>i. ?ks ! i) [0..<length ?ks])"
    unfolding ps_def by (metis mset_map)
  then show "mset ps = mset (unique xs)" by (simp add: map_nth)
  have s: "sorted_wrt (\<lambda>i j. desc_na_last (map Some ?cs ! i) (map Some ?cs ! j)) idx"
    using sc by (simp add: sort_values_contract_def)
  have "sorted_wrt (\<lambda>i j. count_list xs (?ks ! j) \<le> count_list xs (?ks ! i)) idx"
    by (rule sorted_wrt_mono_rel [OF _ s])
      (use b in \<open>auto simp: desc_na_last_def first_seen_counts_def\<close>)
  then show "sorted_wrt (\<lambda>a b. count_list xs b \<le> count_list xs a) ps"
    by (simp add: ps_def sorted_wrt_map)
qed

lemma sum_counts_perm:
  assumes "mset ps = mset (unique xs)"
  shows "sum_list (map (count_list xs) ps) = length xs"
proof -
  have d: "distinct ps" using assms distinct_unique by (metis mset_eq_imp_distinct_iff)
  have s: "set ps = set xs" using assms set_unique by (metis mset_eq_setD)
  have "sum_list (map (count_list xs) ps) = sum (count_list xs) (set ps)"
    using d by (rule sum_list_distinct_conv_sum_set)
  also have "\<dots> = length xs" unfolding s by (rule sum_count_set) auto
  finally show ?thesis .
qed

lemma sum_list_take_le: "sum_list (map f (take m ps)) \<le> (sum_list (map f ps) :: nat)"
proof -
  have "sum_list (map f ps) = sum_list (map f (take m ps)) + sum_list (map f (drop m ps))"
    by (metis append_take_drop_id map_append sum_list_append)
  then show ?thesis by simp
qed

lemma count_dropna:
  "count_list (dropna (map f df)) k = length (filter (\<lambda>r. f r = Some k) df)"
  by (induction df) (auto simp: dropna_def)

lemma length_dropna: "length (dropna (map f df)) = length (filter (\<lambda>r. f r \<noteq> None) df)"
  by (induction df) (auto simp: dropna_def)

lemma count_column: "count_list (map f df) g = length (filter (\<lambda>r. f r = g) df)"
  by (induction df) auto

lemma map_of_counts:
  "map_of (map (\<lambda>k. (k, c k)) ps) g = (if g \<in> set ps then Some (c g) else None)"
  by (induction ps) auto

lemma value_counts_head:
  assumes m: "0 \<le> m"
    and c: "argsort_ok argsort False (map Some (first_seen_counts xs))"
  defines "js \<equiv> take (nat m) (nargsort argsort False (map Some (first_seen_counts xs)))"
  defines "res \<equiv> head m (value_counts argsort xs)"
  shows "res = map (\<lambda>i. (unique xs ! i, count_list xs (unique xs ! i))) js"
    and "length res = min (nat m) (length (unique xs))"
    and "distinct (map fst res)"
    and "\<forall>(k, c) \<in> set res. k \<in> set xs \<and> c = count_list xs k \<and> 0 < c"
    and "sorted_wrt (\<lambda>a b. snd b \<le> snd a) res"
    and "\<forall>k \<in> set xs. k \<notin> fst ` set res \<longrightarrow> (\<forall>(k', c') \<in> set res. count_list xs k \<le> c')"
    and "sum_list (map snd res) \<le> length xs"
    and "ties_in_order (map Some (first_seen_counts xs))
           (nargsort argsort False (map Some (first_seen_counts xs))) \<longrightarrow>
           sorted_wrt (\<lambda>i j. count_list xs (unique xs ! i) = count_list xs (unique xs ! j) \<longrightarrow> i < j) js"
proof -
  let ?idx = "nargsort argsort False (map Some (first_seen_counts xs))"
  define ps where "ps = map (\<lambda>i. unique xs ! i) ?idx"
  note vc = value_counts_perm [where argsort = argsort and xs = xs, OF c, folded ps_def]
  have sc: "sort_values_contract (map Some (first_seen_counts xs)) ?idx"
    by (rule nargsort_desc_contract [OF c])
  have b: "\<forall>i\<in>set ?idx. i < length (unique xs)"
    using sc by (auto simp: sort_values_contract_def list_all_iff length_first_seen_counts)
  have li: "length ?idx = length (unique xs)"
    using sc by (simp add: sort_values_contract_def length_first_seen_counts)
  have dps: "distinct ps" using vc(2) distinct_unique by (metis mset_eq_imp_distinct_iff)
  have sps: "set ps = set xs" using vc(2) set_unique by (metis mset_eq_setD)
  have r: "res = map (\<lambda>k. (k, count_list xs k)) (take (nat m) ps)"
    using m by (simp add: res_def head_take vc(1) take_map)
  have tp: "take (nat m) ps = map (\<lambda>i. unique xs ! i) js"
    by (simp add: ps_def js_def take_map)
  show "res = map (\<lambda>i. (unique xs ! i, count_list xs (unique xs ! i))) js"
    by (simp add: r tp comp_def)
  show "length res = min (nat m) (length (unique xs))"
    using li by (simp add: r ps_def min.commute)
  have fst_res: "map fst res = take (nat m) ps" by (simp add: r comp_def)
  show "distinct (map fst res)" using dps by (simp add: fst_res)
  show "\<forall>(k, c) \<in> set res. k \<in> set xs \<and> c = count_list xs k \<and> 0 < c"
  proof -
    have "k \<in> set xs \<and> 0 < count_list xs k" if "k \<in> set (take (nat m) ps)" for k
    proof -
      have "k \<in> set xs" using that sps by (auto dest: in_set_takeD)
      moreover have "count_list xs k \<noteq> 0" using \<open>k \<in> set xs\<close> by (simp add: count_list_0_iff)
      ultimately show ?thesis by simp
    qed
    then show ?thesis by (auto simp: r)
  qed
  have sorted_ps: "sorted_wrt (\<lambda>a b. count_list xs b \<le> count_list xs a) (take (nat m) ps @ drop (nat m) ps)"
    using vc(3) by simp
  show "sorted_wrt (\<lambda>a b. snd b \<le> snd a) res"
    using sorted_ps by (simp add: r sorted_wrt_map sorted_wrt_append)
  show "\<forall>k \<in> set xs. k \<notin> fst ` set res \<longrightarrow> (\<forall>(k', c') \<in> set res. count_list xs k \<le> c')"
  proof (intro ballI impI)
    fix k kc assume k: "k \<in> set xs" and nk: "k \<notin> fst ` set res" and kc: "kc \<in> set res"
    have "set (map fst res) = set (take (nat m) ps)" by (simp only: fst_res)
    then have nk': "k \<notin> set (take (nat m) ps)" using nk by simp
    have "k \<in> set ps" using k sps by simp
    then have "k \<in> set (take (nat m) ps) \<union> set (drop (nat m) ps)"
      by (metis append_take_drop_id set_append)
    then have kd: "k \<in> set (drop (nat m) ps)" using nk' by blast
    obtain k' where k': "k' \<in> set (take (nat m) ps)" "kc = (k', count_list xs k')"
      using kc by (auto simp: r)
    have "count_list xs k \<le> count_list xs k'"
      using sorted_ps k'(1) kd unfolding sorted_wrt_append by blast
    then show "case kc of (k', c') \<Rightarrow> count_list xs k \<le> c'" by (simp add: k'(2))
  qed
  have "sum_list (map snd res) = sum_list (map (count_list xs) (take (nat m) ps))"
    by (simp add: r comp_def)
  also have "\<dots> \<le> sum_list (map (count_list xs) ps)" by (rule sum_list_take_le)
  also have "\<dots> = length xs" by (rule sum_counts_perm [OF vc(2)])
  finally show "sum_list (map snd res) \<le> length xs" .
  show "ties_in_order (map Some (first_seen_counts xs)) ?idx \<longrightarrow>
           sorted_wrt (\<lambda>i j. count_list xs (unique xs ! i) = count_list xs (unique xs ! j) \<longrightarrow> i < j) js"
  proof
    assume t: "ties_in_order (map Some (first_seen_counts xs)) ?idx"
    have "sorted_wrt (\<lambda>i j. count_list xs (unique xs ! i) = count_list xs (unique xs ! j) \<longrightarrow> i < j) ?idx"
      by (rule sorted_wrt_mono_rel [OF _ t [unfolded ties_in_order_def]])
        (use b in \<open>auto simp: first_seen_counts_def\<close>)
    then show "sorted_wrt (\<lambda>i j. count_list xs (unique xs ! i) = count_list xs (unique xs ! j) \<longrightarrow> i < j) js"
      unfolding js_def by (rule sorted_wrt_take)
  qed
qed

lemma value_counts_all:
  assumes c: "argsort_ok argsort False (map Some (first_seen_counts xs))"
  shows "sum_list (map snd (value_counts argsort xs)) = length xs"
    and "distinct (map fst (value_counts argsort xs))"
    and "map_of (value_counts argsort xs) g = (if g \<in> set xs then Some (count_list xs g) else None)"
proof -
  define ps where
    "ps = map (\<lambda>i. unique xs ! i) (nargsort argsort False (map Some (first_seen_counts xs)))"
  note vc = value_counts_perm [where argsort = argsort and xs = xs, OF c, folded ps_def]
  have dps: "distinct ps" using vc(2) distinct_unique by (metis mset_eq_imp_distinct_iff)
  have sps: "set ps = set xs" using vc(2) set_unique by (metis mset_eq_setD)
  show "sum_list (map snd (value_counts argsort xs)) = length xs"
    using sum_counts_perm [OF vc(2)] by (simp add: vc(1) comp_def)
  show "distinct (map fst (value_counts argsort xs))"
    using dps by (simp add: vc(1) comp_def)
  show "map_of (value_counts argsort xs) g = (if g \<in> set xs then Some (count_list xs g) else None)"
    by (simp only: vc(1) map_of_counts sps)
qed

section \<open>Top-n queries\<close>

lemma top_n_general:
  fixes f :: "row \<Rightarrow> real option"
  assumes n: "1 \<le> n" and c: "sort_values_contract (map f df) idx"
  defines "js \<equiv> take (nat n) idx"
  shows "head n (take_rows idx df) = map (\<lambda>i. df ! i) js"
    and "length js = min (nat n) (length df)"
    and "distinct js"
    and "\<forall>i\<in>set js. i < length df"
    and "sorted_wrt (\<lambda>i j. desc_na_last (f (df ! i)) (f (df ! j))) js"
    and "ties_in_order (map f df) idx \<Longrightarrow>
           sorted_wrt (\<lambda>i j. f (df ! i) = f (df ! j) \<longrightarrow> i < j) js"
proof -
  have d: "distinct idx" and l: "length idx = length df"
    and b: "\<forall>i\<in>set idx. i < length df"
    using c by (auto simp: sort_values_contract_def list_all_iff)
  show "head n (take_rows idx df) = map (\<lambda>i. df ! i) js"
    using n by (simp add: head_take take_rows_def js_def take_map)
  show "length js = min (nat n) (length df)" using l by (simp add: js_def min.commute)
  show "distinct js" using d by (simp add: js_def)
  show bj: "\<forall>i\<in>set js. i < length df" using b by (auto simp: js_def dest: in_set_takeD)
  show "sorted_wrt (\<lambda>i j. desc_na_last (f (df ! i)) (f (df ! j))) js"
    unfolding js_def by (rule sorted_wrt_take [OF contract_sorted_keys [OF c]])
  show "sorted_wrt (\<lambda>i j. f (df ! i) = f (df ! j) \<longrightarrow> i < j) js"
    if "ties_in_order (map f df) idx"
    unfolding js_def by (rule sorted_wrt_take [OF ties_keys [OF that b]])
qed

lemma desc_na_last_records:
  assumes "sorted_wrt (\<lambda>i j. desc_na_last (f (df ! i)) (f (df ! j))) js"
    and "\<And>r. key (proj r) = f r"
  shows "sorted_wrt (\<lambda>a b. desc_na_last (key a) (key b)) (map (\<lambda>i. proj (df ! i)) js)"
  using assms by (simp add: sorted_wrt_map)

lemma missing_stays_last:
  assumes "sorted_wrt (\<lambda>a b. desc_na_last (key a) (key b)) res"
    and "i < j" and "j < length res" and "key (res ! i) = None"
  shows "key (res ! j) = None"
  using sorted_wrt_nth_less [OF assms(1-3)] assms(4) by (auto dest: desc_na_last_None)

lemma top_n_records:
  fixes f :: "row \<Rightarrow> real option"
  assumes n: "1 \<le> n" and c: "argsort_ok argsort False (map f df)"
    and k: "\<And>r. key (proj r) = f r"
  defines "js \<equiv> take (nat n) (nargsort argsort False (map f df))"
  defines "res \<equiv> map proj (head n (sort_values argsort f False df))"
  shows "res = map (\<lambda>i. proj (df ! i)) js"
    and "length res = min (nat n) (length df)"
    and "distinct js \<and> (\<forall>i\<in>set js. i < length df)"
    and "set res \<subseteq> proj ` set df"
    and "sorted_wrt (\<lambda>a b. desc_na_last (key a) (key b)) res"
    and "\<forall>i j. i < j \<longrightarrow> j < length res \<longrightarrow> key (res ! i) = None \<longrightarrow> key (res ! j) = None"
    and "ties_in_order (map f df) (nargsort argsort False (map f df)) \<longrightarrow>
           sorted_wrt (\<lambda>i j. f (df ! i) = f (df ! j) \<longrightarrow> i < j) js"
proof -
  have sc: "sort_values_contract (map f df) (nargsort argsort False (map f df))"
    by (rule nargsort_desc_contract [OF c])
  note g = top_n_general [where f = f and df = df and idx = "nargsort argsort False (map f df)",
      OF n sc]
  show r: "res = map (\<lambda>i. proj (df ! i)) js"
    by (simp add: res_def js_def sort_values_def g(1))
  show "length res = min (nat n) (length df)"
    using g(2) by (simp add: r js_def)
  show "distinct js \<and> (\<forall>i\<in>set js. i < length df)"
    using g(3,4) by (simp add: js_def)
  show "set res \<subseteq> proj ` set df"
    using g(4) by (auto simp: r js_def)
  show s: "sorted_wrt (\<lambda>a b. desc_na_last (key a) (key b)) res"
    unfolding r
    by (rule desc_na_last_records [where f = f and key = key and proj = proj])
      (use g(5) k in \<open>simp_all add: js_def\<close>)
  show "\<forall>i j. i < j \<longrightarrow> j < length res \<longrightarrow> key (res ! i) = None \<longrightarrow> key (res ! j) = None"
    using missing_stays_last [OF s] by blast
  show "ties_in_order (map f df) (nargsort argsort False (map f df)) \<longrightarrow>
           sorted_wrt (\<lambda>i j. f (df ! i) = f (df ! j) \<longrightarrow> i < j) js"
    using g(6) by (simp add: js_def)
qed

text \<open>
  C2, as the code has it. For \<open>n \<ge> 1\<close>, and an \<open>argsort\<close> that sorts the salaries (the
  years of experience) it is handed, \<open>get_top_earners\<close> (and likewise
  \<open>get_top_experienced\<close>) returns \<open>min n total\<close> records, descending by salary (by years
  of experience), a record with a missing value never before one with a value; the
  records are those of distinct rows of the frame. Rows with equal values come in the
  frame's order when the indexer keeps ties in order, as it does with a stable
  \<open>argsort\<close> (\<open>nargsort_desc_ties\<close>); the default sort does not promise it.
\<close>

theorem top_n_sorted:
  assumes "1 \<le> n"
    and "argsort_ok argsort False (map salary df)"
    and "argsort_ok argsort False (map years_of_experience df)"
  shows "(let res = get_top_earners argsort df n;
              js = take (nat n) (nargsort argsort False (map salary df)) in
            length res = min (nat n) (length df)
          \<and> sorted_wrt (\<lambda>a b. desc_na_last (pr_salary a) (pr_salary b)) res
          \<and> (\<forall>i j. i < j \<longrightarrow> j < length res \<longrightarrow> pr_salary (res ! i) = None
                 \<longrightarrow> pr_salary (res ! j) = None)
          \<and> res = map (\<lambda>i. earner_record (df ! i)) js
          \<and> distinct js \<and> (\<forall>i\<in>set js. i < length df)
          \<and> set res \<subseteq> earner_record ` set df
          \<and> (ties_in_order (map salary df) (nargsort argsort False (map salary df)) \<longrightarrow>
               sorted_wrt (\<lambda>i j. salary (df ! i) = salary (df ! j) \<longrightarrow> i < j) js))
       \<and> (let res = get_top_experienced argsort df n;
               js = take (nat n) (nargsort argsort False (map years_of_experience df)) in
            length res = min (nat n) (length df)
          \<and> sorted_wrt (\<lambda>a b. desc_na_last (pr_years_of_experience a) (pr_years_of_experience b)) res
          \<and> (\<forall>i j. i < j \<longrightarrow> j < length res \<longrightarrow> pr_years_of_experience (res ! i) = None
                 \<longrightarrow> pr_years_of_experience (res ! j) = None)
          \<and> res = map (\<lambda>i. experienced_record (df ! i)) js
          \<and> distinct js \<and> (\<forall>i\<in>set js. i < length df)
          \<and> set res \<subseteq> experienced_record ` set df
          \<and> (ties_in_order (map years_of_experience df)
                (nargsort argsort False (map years_of_experience df)) \<longrightarrow>
               sorted_wrt (\<lambda>i j. years_of_experience (df ! i) = years_of_experience (df ! j)
                             \<longrightarrow> i < j) js))"
proof -
  have k1: "\<And>r. pr_salary (earner_record r) = salary r"
    by (simp add: earner_record_def)
  have k2: "\<And>r. pr_years_of_experience (experienced_record r) = years_of_experience r"
    by (simp add: experienced_record_def)
  note e = top_n_records [where f = salary and key = pr_salary and proj = earner_record
      and argsort = argsort and df = df, OF assms(1) assms(2) k1, folded get_top_earners_def]
  note x = top_n_records [where f = years_of_experience and key = pr_years_of_experience
      and proj = experienced_record and argsort = argsort and df = df, OF assms(1) assms(3) k2,
      folded get_top_experienced_def]
  show ?thesis
    unfolding Let_def
    using e x by (intro conjI) blast+
qed

theorem top_n_sorted_witness:
  "(1::int) \<le> 2
   \<and> argsort_ok network_argsort False (map salary ex_df)
   \<and> argsort_ok network_argsort False (map years_of_experience ex_df)
   \<and> ties_in_order (map salary ex_df) (nargsort network_argsort False (map salary ex_df))
   \<and> length (get_top_earners network_argsort ex_df 2) = 2
   \<and> map pr_first_name (get_top_earners network_argsort ex_df 2) = [''Cy'', ''Ann'']
   \<and> sorted_wrt (\<lambda>a b. desc_na_last (pr_salary a) (pr_salary b))
        (get_top_earners network_argsort ex_df 2)
   \<and> map pr_first_name (get_top_experienced network_argsort ex_df 3) = [''Bob'', ''Ann'', ''Cy'']"
proof -
  have c1: "argsort_ok network_argsort False (map salary ex_df)"
    by code_simp
  have c2: "argsort_ok network_argsort False (map years_of_experience ex_df)"
    by code_simp
  have t: "ties_in_order (map salary ex_df) (nargsort network_argsort False (map salary ex_df))"
    by code_simp
  have v1: "map pr_first_name (get_top_earners network_argsort ex_df 2) = [''Cy'', ''Ann'']"
    by code_simp
  have v2: "map pr_first_name (get_top_experienced network_argsort ex_df 3) = [''Bob'', ''Ann'', ''Cy'']"
    by code_simp
  have l: "nat 2 = 2" "min 2 (length ex_df) = 2" by (simp_all add: length_ex_df)
  have h: "(1::int) \<le> 2" by simp
  note th = top_n_sorted [of 2 network_argsort ex_df, OF h c1 c2, unfolded Let_def l]
  have "length (get_top_earners network_argsort ex_df 2) = 2
      \<and> sorted_wrt (\<lambda>a b. desc_na_last (pr_salary a) (pr_salary b))
        (get_top_earners network_argsort ex_df 2)"
    using th by blast
  with h c1 c2 t v1 v2 show ?thesis by blast
qed

text \<open>
  Counterexample to the tie order of C2. On the salaries 50, 50, 70, 70 (Ann, Bob, Cy,
  Dee) with \<open>network_argsort\<close>, the two top earners come out as Dee, Cy: equal salaries,
  in the reverse of the frame's order. On \<open>tie_df\<close> (salaries 50, 50, 70) the same
  procedure leaves Ann before Bob.
\<close>

theorem top_n_ties_counterexample:
  "argsort_ok network_argsort False (map salary four_df)
   \<and> map first_name four_df = [''Ann'', ''Bob'', ''Cy'', ''Dee'']
   \<and> map salary four_df = [Some 50, Some 50, Some 70, Some 70]
   \<and> map pr_first_name (get_top_earners network_argsort four_df 2) = [''Dee'', ''Cy'']"
  by code_simp

lemma top_earners_tie_df:
  "map pr_first_name (get_top_earners network_argsort tie_df 3) = [''Cy'', ''Ann'', ''Bob'']"
  by code_simp

section \<open>Distributions\<close>

lemma set_dropna: "set (dropna xs) = {x. Some x \<in> set xs}"
  by (induction xs) (auto simp: dropna_def)

text \<open>
  C6, as the code has it. For \<open>top_n \<ge> 1\<close>, and an \<open>argsort\<close> that sorts the counts it is
  handed, \<open>get_industry_distribution\<close> returns \<open>min top_n (number of industries)\<close>
  entries, so at most \<open>top_n\<close>; each maps an industry to the number of its records; the
  industries are distinct, the counts descend, and no industry left out has more records
  than one listed. Industries with equal counts come in the order of their first
  occurrence when the indexer keeps ties in order, as it does with a stable \<open>argsort\<close>;
  a sort that is not stable does not promise it.
\<close>

theorem industry_distribution_top:
  assumes "1 \<le> top_n"
    and "argsort_ok argsort False (map Some (first_seen_counts (dropna (map industry df))))"
  shows "let res = get_industry_distribution argsort df top_n;
             inds = unique (dropna (map industry df));
             records_of = (\<lambda>k. length (filter (\<lambda>r. industry r = Some k) df));
             js = take (nat top_n)
                    (nargsort argsort False (map Some (first_seen_counts (dropna (map industry df)))))
         in length res = min (nat top_n) (length inds)
          \<and> length res \<le> nat top_n
          \<and> res = map (\<lambda>i. (inds ! i, records_of (inds ! i))) js
          \<and> distinct (map fst res)
          \<and> (\<forall>(k, c) \<in> set res. c = records_of k \<and> 0 < c)
          \<and> sorted_wrt (\<lambda>a b. snd b \<le> snd a) res
          \<and> (\<forall>k \<in> set inds. k \<notin> fst ` set res \<longrightarrow> (\<forall>(k', c') \<in> set res. records_of k \<le> c'))
          \<and> (ties_in_order (map Some (first_seen_counts (dropna (map industry df))))
                (nargsort argsort False (map Some (first_seen_counts (dropna (map industry df)))))
               \<longrightarrow>
               sorted_wrt (\<lambda>i j. records_of (inds ! i) = records_of (inds ! j) \<longrightarrow> i < j) js)"
proof -
  have m: "0 \<le> top_n" using assms(1) by simp
  note v = value_counts_head [where argsort = argsort and xs = "dropna (map industry df)" and m = top_n,
      OF m assms(2), folded get_industry_distribution_def, unfolded count_dropna]
  have "length (get_industry_distribution argsort df top_n) \<le> nat top_n"
    using v(2) by simp
  moreover have "\<forall>(k, c) \<in> set (get_industry_distribution argsort df top_n).
      c = length (filter (\<lambda>r. industry r = Some k) df) \<and> 0 < c"
    using v(4) by fastforce
  ultimately show ?thesis
    unfolding Let_def set_unique using v(1,2,3,5,6,8) by (intro conjI) blast+
qed

theorem industry_distribution_top_witness:
  "(1::int) \<le> 2
   \<and> argsort_ok network_argsort False (map Some (first_seen_counts (dropna (map industry ex_df))))
   \<and> get_industry_distribution network_argsort ex_df 2 = [(''Tech'', 1), (''Retail'', 1)]
   \<and> length (get_industry_distribution network_argsort ex_df 2) \<le> nat 2
   \<and> distinct (map fst (get_industry_distribution network_argsort ex_df 2))"
proof -
  have h: "(1::int) \<le> 2" by simp
  have c: "argsort_ok network_argsort False (map Some (first_seen_counts (dropna (map industry ex_df))))"
    by code_simp
  have v: "get_industry_distribution network_argsort ex_df 2 = [(''Tech'', 1), (''Retail'', 1)]"
    by code_simp
  note th = industry_distribution_top [of 2 network_argsort ex_df, OF h c, unfolded Let_def]
  have "length (get_industry_distribution network_argsort ex_df 2) \<le> nat 2
      \<and> distinct (map fst (get_industry_distribution network_argsort ex_df 2))"
    using th by blast
  with h c v show ?thesis by blast
qed

text \<open>
  Counterexample to the tie order of C6. In \<open>six_df\<close> the industries occur in the order
  Tech, Retail, Health, Finance, with 1, 1, 2 and 2 records. With \<open>network_argsort\<close> the
  two most frequent come out as Finance, Health, the reverse of the order of their first
  occurrence. On \<open>tie_df\<close> (Tech and Retail, one record each) the same procedure leaves
  Tech before Retail.
\<close>

theorem industry_ties_counterexample:
  "argsort_ok network_argsort False (map Some (first_seen_counts (dropna (map industry six_df))))
   \<and> map industry six_df = [Some ''Tech'', Some ''Retail'', Some ''Health'', Some ''Health'',
                               Some ''Finance'', Some ''Finance'']
   \<and> unique (dropna (map industry six_df)) = [''Tech'', ''Retail'', ''Health'', ''Finance'']
   \<and> get_industry_distribution network_argsort six_df 2 = [(''Finance'', 2), (''Health'', 2)]"
  by code_simp

lemma industry_distribution_tie_df:
  "get_industry_distribution network_argsort tie_df 2 = [(''Tech'', 1), (''Retail'', 1)]"
  by code_simp

text \<open>
  C7. \<open>get_gender_distribution\<close> maps each gender value of the frame to the number of
  its records, the missing value included (key \<open>None\<close>) when some record has no gender,
  and its counts add up to the number of records.
\<close>

theorem gender_distribution_total:
  assumes "argsort_ok argsort False (map Some (first_seen_counts (map gender df)))"
  shows "sum_list (map snd (get_gender_distribution argsort df)) = length df
       \<and> distinct (map fst (get_gender_distribution argsort df))
       \<and> (\<forall>g. map_of (get_gender_distribution argsort df) g =
               (if g \<in> gender ` set df then Some (length (filter (\<lambda>r. gender r = g) df)) else None))
       \<and> (None \<in> gender ` set df \<longrightarrow>
            map_of (get_gender_distribution argsort df) None
              = Some (length (filter (\<lambda>r. gender r = None) df)))"
proof -
  note v = value_counts_all [where argsort = argsort and xs = "map gender df", OF assms,
      folded get_gender_distribution_def, unfolded count_column]
  have 1: "sum_list (map snd (get_gender_distribution argsort df)) = length df"
    using v(1) by simp
  have 3: "map_of (get_gender_distribution argsort df) g =
      (if g \<in> gender ` set df then Some (length (filter (\<lambda>r. gender r = g) df)) else None)" for g
    using v(3) [of g] by simp
  show ?thesis using 1 v(2) 3 by simp
qed

theorem gender_distribution_total_witness:
  "argsort_ok network_argsort False (map Some (first_seen_counts (map gender ex_df)))
   \<and> get_gender_distribution network_argsort ex_df = [(Some ''F'', 1), (None, 1), (Some ''M'', 1)]
   \<and> sum_list (map snd (get_gender_distribution network_argsort ex_df)) = length ex_df
   \<and> map_of (get_gender_distribution network_argsort ex_df) None = Some 1"
proof -
  have c: "argsort_ok network_argsort False (map Some (first_seen_counts (map gender ex_df)))"
    by code_simp
  have v: "get_gender_distribution network_argsort ex_df = [(Some ''F'', 1), (None, 1), (Some ''M'', 1)]"
    by code_simp
  have m: "map_of (get_gender_distribution network_argsort ex_df) None = Some 1"
    by (simp add: v)
  have "sum_list (map snd (get_gender_distribution network_argsort ex_df)) = length ex_df"
    using gender_distribution_total [of network_argsort ex_df, OF c] by blast
  with c v m show ?thesis by blast
qed

text \<open>
  C10. \<open>get_industry_distribution\<close> has no entry for the records without an industry:
  its keys are industries that some record has, and for \<open>top_n \<ge> 1\<close> its counts add up
  to at most the number of records with an industry, which can be less than the number
  of records (as in \<open>ex_df\<close>).
\<close>

theorem industry_distribution_excludes_missing:
  assumes "1 \<le> top_n"
    and "argsort_ok argsort False (map Some (first_seen_counts (dropna (map industry df))))"
  shows "sum_list (map snd (get_industry_distribution argsort df top_n))
           \<le> length (filter (\<lambda>r. industry r \<noteq> None) df)
       \<and> (\<forall>k \<in> fst ` set (get_industry_distribution argsort df top_n). Some k \<in> industry ` set df)
       \<and> sum_list (map snd (get_industry_distribution network_argsort ex_df 3)) < length ex_df"
proof -
  have m: "0 \<le> top_n" using assms(1) by simp
  note v = value_counts_head [where argsort = argsort and xs = "dropna (map industry df)" and m = top_n,
      OF m assms(2), folded get_industry_distribution_def]
  have 1: "sum_list (map snd (get_industry_distribution argsort df top_n))
           \<le> length (filter (\<lambda>r. industry r \<noteq> None) df)"
    using v(7) by (simp add: length_dropna)
  have s: "Some k \<in> industry ` set df" if "k \<in> set (dropna (map industry df))" for k
    using that by (simp add: set_dropna)
  have 2: "\<forall>k \<in> fst ` set (get_industry_distribution argsort df top_n). Some k \<in> industry ` set df"
  proof
    fix k assume "k \<in> fst ` set (get_industry_distribution argsort df top_n)"
    then obtain c where "(k, c) \<in> set (get_industry_distribution argsort df top_n)" by auto
    then have "k \<in> set (dropna (map industry df))" using v(4) by blast
    then show "Some k \<in> industry ` set df" by (rule s)
  qed
  have 3: "sum_list (map snd (get_industry_distribution network_argsort ex_df 3)) < length ex_df"
    by code_simp
  show ?thesis using 1 2 3 by blast
qed

theorem industry_distribution_excludes_missing_witness:
  "(1::int) \<le> 3
   \<and> argsort_ok network_argsort False (map Some (first_seen_counts (dropna (map industry ex_df))))
   \<and> sum_list (map snd (get_industry_distribution network_argsort ex_df 3))
        \<le> length (filter (\<lambda>r. industry r \<noteq> None) ex_df)
   \<and> length (filter (\<lambda>r. industry r \<noteq> None) ex_df) = 2 \<and> length ex_df = 3"
proof -
  have h: "(1::int) \<le> 3" by simp
  have c: "argsort_ok network_argsort False (map Some (first_seen_counts (dropna (map industry ex_df))))"
    by code_simp
  have l: "length (filter (\<lambda>r. industry r \<noteq> None) ex_df) = 2" "length ex_df = 3"
    by (simp_all add: ex_df_def mk_row_def)
  have "sum_list (map snd (get_industry_distribution network_argsort ex_df 3))
        \<le> length (filter (\<lambda>r. industry r \<noteq> None) ex_df)"
    using industry_distribution_excludes_missing [of 3 network_argsort ex_df, OF h c] by blast
  with h c l show ?thesis by blast
qed

section \<open>Statistics: the industry filter\<close>

text \<open>
  C9. With \<open>industry = ""\<close> (as with \<open>None\<close>) \<open>get_salary_stats\<close> and
  \<open>get_experience_stats\<close> describe the whole frame; the filter applies only to a
  non-empty argument, and then keeps exactly the rows whose industry is that string
  (equality of strings, so case matters).
\<close>

theorem stats_industry_filter:
  "get_salary_stats df (Some '''') = get_salary_stats df None
   \<and> get_salary_stats df None = dropna_to_dict (describe (map salary df))
   \<and> get_experience_stats df (Some '''') = get_experience_stats df None
   \<and> get_experience_stats df None = dropna_to_dict (describe (map years_of_experience df))
   \<and> (ind \<noteq> '''' \<longrightarrow>
        get_salary_stats df (Some ind)
          = dropna_to_dict (describe (map salary (filter (\<lambda>r. industry r = Some ind) df)))
      \<and> get_experience_stats df (Some ind)
          = dropna_to_dict (describe (map years_of_experience
                                         (filter (\<lambda>r. industry r = Some ind) df))))"
  by (simp add: get_salary_stats_def get_experience_stats_def industry_subset_def truthy_def)

lemma count_entry: "map_of (dropna_to_dict (describe col)) ''count'' = Some (real (length (dropna col)))"
  by (simp add: describe_def dropna_to_dict_def Let_def)

theorem stats_industry_filter_witness:
  "''Tech'' \<noteq> ''''
   \<and> get_salary_stats case_df (Some ''Tech'')
       = dropna_to_dict (describe (map salary (filter (\<lambda>r. industry r = Some ''Tech'') case_df)))
   \<and> map_of (get_salary_stats case_df (Some ''Tech'')) ''count'' = Some 1
   \<and> map_of (get_salary_stats case_df (Some ''tech'')) ''count'' = Some 1
   \<and> map_of (get_salary_stats case_df (Some ''TECH'')) ''count'' = Some 0
   \<and> map_of (get_salary_stats case_df (Some '''')) ''count'' = Some 3"
proof -
  have n: "''Tech'' \<noteq> ''''" "''tech'' \<noteq> ''''" "''TECH'' \<noteq> ''''" by simp_all
  note a = stats_industry_filter [of case_df "''Tech''"]
  note b = stats_industry_filter [of case_df "''tech''"]
  note c = stats_industry_filter [of case_df "''TECH''"]
  have 1: "get_salary_stats case_df (Some ''Tech'')
       = dropna_to_dict (describe (map salary (filter (\<lambda>r. industry r = Some ''Tech'') case_df)))"
    using a n by blast
  have 2: "get_salary_stats case_df (Some ''tech'')
       = dropna_to_dict (describe (map salary (filter (\<lambda>r. industry r = Some ''tech'') case_df)))"
    using b n by blast
  have 3: "get_salary_stats case_df (Some ''TECH'')
       = dropna_to_dict (describe (map salary (filter (\<lambda>r. industry r = Some ''TECH'') case_df)))"
    using c n by blast
  have 4: "get_salary_stats case_df (Some '''') = dropna_to_dict (describe (map salary case_df))"
    using a by simp
  have v1: "map_of (get_salary_stats case_df (Some ''Tech'')) ''count'' = Some 1"
    unfolding 1 count_entry by (simp add: case_df_def mk_row_def dropna_def)
  have v2: "map_of (get_salary_stats case_df (Some ''tech'')) ''count'' = Some 1"
    unfolding 2 count_entry by (simp add: case_df_def mk_row_def dropna_def)
  have v3: "map_of (get_salary_stats case_df (Some ''TECH'')) ''count'' = Some 0"
    unfolding 3 count_entry by (simp add: case_df_def mk_row_def dropna_def)
  have v4: "map_of (get_salary_stats case_df (Some '''')) ''count'' = Some 3"
    unfolding 4 count_entry by (simp add: case_df_def mk_row_def dropna_def)
  show ?thesis using n(1) 1 v1 v2 v3 v4 by blast
qed

section \<open>Statistics without data\<close>

lemma describe_no_data:
  assumes "dropna col = []"
  shows "dropna_to_dict (describe col) = [(''count'', 0)]"
  using assms by (simp add: describe_def dropna_to_dict_def)

lemma describe_one_value:
  assumes "length (dropna col) = 1"
  shows "map fst (dropna_to_dict (describe col))
           = [''count'', ''mean'', ''min'', ''25%'', ''50%'', ''75%'', ''max'']"
proof -
  have "dropna col \<noteq> []" using assms by auto
  then show ?thesis using assms by (simp add: describe_def dropna_to_dict_def Let_def)
qed

lemma validate_no_data:
  "validate_StatsResponse [(''count'', 0)]
     = Inl (ResponseValidationError [''mean'', ''std'', ''min'', ''max''])"
  by (simp add: validate_StatsResponse_def)

lemma salary_stats_no_data:
  assumes "dropna (map salary (industry_subset df ind)) = []"
  shows "get_salary_stats df ind = [(''count'', 0)]"
    and "salary_stats df ind = Inl (ResponseValidationError [''mean'', ''std'', ''min'', ''max''])"
  using assms
  by (simp_all add: salary_stats_def get_salary_stats_def describe_no_data validate_no_data)

lemma experience_stats_no_data:
  assumes "dropna (map years_of_experience (industry_subset df ind)) = []"
  shows "get_experience_stats df ind = [(''count'', 0)]"
    and "experience_stats df ind = Inl (ResponseValidationError [''mean'', ''std'', ''min'', ''max''])"
  using assms
  by (simp_all add: experience_stats_def get_experience_stats_def describe_no_data validate_no_data)

lemma corr_insufficient:
  assumes "length ps < 2"
  shows "corr ps = None"
proof (cases ps)
  case Nil
  then show ?thesis by (simp add: corr_def)
next
  case (Cons p qs)
  then have "qs = []" using assms by simp
  then show ?thesis using Cons by (simp add: corr_def Let_def mean_def)
qed

lemma correlations_insufficient:
  assumes "length (paired df salary years_of_experience) < 2"
    and "length (paired df years_of_experience age_real) < 2"
  shows "get_correlations df = \<lparr> salary_vs_experience = None, experience_vs_age = None \<rparr>"
  using assms by (simp add: get_correlations_def corr_insufficient)

text \<open>
  C3 at the endpoints. On a frame with no record of industry \<open>Mining\<close>, the queries
  return the dictionary with the key \<open>count\<close> alone (the other statistics are absent),
  and the endpoints \<open>/salary/stats\<close> and \<open>/experience/stats\<close>, whose response model
  requires \<open>mean\<close>, \<open>std\<close>, \<open>min\<close> and \<open>max\<close>, fail with a validation error of the response
  instead of answering with absent or null fields. With a single value (industry
  \<open>Tech\<close>) the standard deviation is absent and the endpoint fails likewise.
\<close>

theorem stats_no_data_is_error:
  "get_salary_stats ex_df (Some ''Mining'') = [(''count'', 0)]
   \<and> salary_stats ex_df (Some ''Mining'')
       = Inl (ResponseValidationError [''mean'', ''std'', ''min'', ''max''])
   \<and> get_experience_stats ex_df (Some ''Mining'') = [(''count'', 0)]
   \<and> experience_stats ex_df (Some ''Mining'')
       = Inl (ResponseValidationError [''mean'', ''std'', ''min'', ''max''])
   \<and> salary_stats ex_df (Some ''Tech'') = Inl (ResponseValidationError [''std''])"
proof -
  have e: "industry_subset ex_df (Some ''Mining'') = []"
    by (simp add: industry_subset_def truthy_def ex_df_def mk_row_def)
  have 1: "dropna (map salary (industry_subset ex_df (Some ''Mining''))) = []"
    by (simp add: e dropna_def)
  have 2: "dropna (map years_of_experience (industry_subset ex_df (Some ''Mining''))) = []"
    by (simp add: e dropna_def)
  have t: "industry_subset ex_df (Some ''Tech'') = [ex_df ! 0]"
    by (simp add: industry_subset_def truthy_def ex_df_def mk_row_def)
  have 3: "length (dropna (map salary (industry_subset ex_df (Some ''Tech'')))) = 1"
    unfolding t by (simp add: dropna_def ex_df_def mk_row_def)
  have k: "map fst (get_salary_stats ex_df (Some ''Tech''))
      = [''count'', ''mean'', ''min'', ''25%'', ''50%'', ''75%'', ''max'']"
    unfolding get_salary_stats_def by (rule describe_one_value [OF 3])
  have m: "map_of d x = None \<longleftrightarrow> x \<notin> set (map fst d)" for d :: "(string \<times> real) list" and x
    by (simp add: map_of_eq_None_iff)
  have 4: "salary_stats ex_df (Some ''Tech'') = Inl (ResponseValidationError [''std''])"
    by (simp add: salary_stats_def validate_StatsResponse_def m k)
  show ?thesis
    using salary_stats_no_data [OF 1] experience_stats_no_data [OF 2] 4 by simp
qed

section \<open>The loader is memoized\<close>



lemma load_failure:
  assumes "load_dataframe w st = (Inl e, st1)"
  shows "cache st = None \<and> cache st1 = None \<and> reads st1 = reads st + 1"
  using assms
  by (auto simp: load_dataframe_def Let_def split: option.splits sum.splits)







end
